theory Spec2Isabelle
  imports Complex_Main "HOL-Library.Multiset"
begin

section \<open>The table\<close>

text \<open>
  \<^verbatim>\<open>web.py\<close> reads one CSV file into a pandas data frame \<^verbatim>\<open>df\<close> and derives every
  view from it. A frame is modelled as the list of its rows, in row order. Only the
  columns the filters and the regression read are kept. \<^verbatim>\<open>Year\<close> is an integer
  column. The three numeric columns are float columns of pandas: a cell is a number
  or missing (\<^verbatim>\<open>NaN\<close>), modelled as \<open>rat option\<close> with \<open>None\<close> for the missing value.
  Numbers are exact rationals: rounding of binary floating point is not modelled.
\<close>

record obs =
  Town :: string
  Year :: int
  Census_Units :: "rat option"
  Total_Assisted_Units :: "rat option"
  Percent_Affordable :: "rat option"

type_synonym frame = "obs list"

section \<open>Filters\<close>

text \<open>Lines 32 and 152: \<^verbatim>\<open>df[df["Year"] == year_selected]\<close>.\<close>

definition filterByYear :: "frame \<Rightarrow> int \<Rightarrow> frame" where
  "filterByYear df year_selected = filter (\<lambda>r. Year r = year_selected) df"

text \<open>Line 71: \<^verbatim>\<open>df[(df["Year"] >= year_range[0]) & (df["Year"] <= year_range[1])]\<close>.\<close>

definition filterByYearRange :: "frame \<Rightarrow> int \<Rightarrow> int \<Rightarrow> frame" where
  "filterByYearRange df lo hi = filter (\<lambda>r. lo \<le> Year r \<and> Year r \<le> hi) df"

text \<open>
  \<^verbatim>\<open>df["Year"].value_counts()\<close> at one year: how many rows of the table carry it.
\<close>

definition rows_per_year :: "frame \<Rightarrow> int \<Rightarrow> nat" where
  "rows_per_year df y = count (mset (map Year df)) y"

text \<open>
  Lines 74 and 75: \<^verbatim>\<open>float(df_range["2010 Census Units"].min())\<close> and \<^verbatim>\<open>.max()\<close>. The
  reductions of pandas skip missing cells; over a column with no number at all they
  return \<^verbatim>\<open>NaN\<close>.
\<close>

definition present :: "('r \<Rightarrow> 'v option) \<Rightarrow> 'r list \<Rightarrow> 'v list" where
  "present col view = List.map_filter col view"

definition col_min :: "('r \<Rightarrow> rat option) \<Rightarrow> 'r list \<Rightarrow> rat option" where
  "col_min col view = (case present col view of [] \<Rightarrow> None | v # vs \<Rightarrow> Some (fold min vs v))"

definition col_max :: "('r \<Rightarrow> rat option) \<Rightarrow> 'r list \<Rightarrow> rat option" where
  "col_max col view = (case present col view of [] \<Rightarrow> None | v # vs \<Rightarrow> Some (fold max vs v))"

text \<open>
  Lines 84 to 87: \<^verbatim>\<open>df_range[(col >= units_low) & (col <= units_high)]\<close>. A comparison
  with \<^verbatim>\<open>NaN\<close> on either side is false. The bounds come from the slider of line 76,
  whose range and default are the column's minimum and maximum.
\<close>

fun nan_le :: "rat option \<Rightarrow> rat option \<Rightarrow> bool" where
  "nan_le (Some a) (Some b) = (a \<le> b)"
| "nan_le _ _ = False"

definition filterByNumericRange ::
  "('r \<Rightarrow> rat option) \<Rightarrow> 'r list \<Rightarrow> rat option \<Rightarrow> rat option \<Rightarrow> 'r list" where
  "filterByNumericRange col view units_low units_high =
     filter (\<lambda>r. nan_le units_low (col r) \<and> nan_le (col r) units_high) view"

section \<open>Sorting\<close>

text \<open>
  Lines 37 and 119 call \<^verbatim>\<open>sort_values\<close> of pandas with one column and no \<^verbatim>\<open>kind\<close>
  argument. pandas documents the result as the rows reordered by the column, ascending
  or descending, with the rows whose cell is missing last in both directions; the
  default \<^verbatim>\<open>kind='quicksort'\<close> is documented as not stable, so the order among rows of
  equal value is left to the library. The call is therefore modelled by its contract,
  a relation between the view and each result the contract admits, and the theorems
  below hold for every such result.
\<close>

fun key_le :: "bool \<Rightarrow> 'k::linorder option \<Rightarrow> 'k option \<Rightarrow> bool" where
  "key_le ascending (Some a) (Some b) = (if ascending then a \<le> b else b \<le> a)"
| "key_le ascending _ None = True"
| "key_le ascending None (Some b) = False"

definition sort_values ::
  "('r \<Rightarrow> 'k::linorder option) \<Rightarrow> bool \<Rightarrow> 'r list \<Rightarrow> 'r list \<Rightarrow> bool" where
  "sort_values col ascending view res =
     (mset res = mset view \<and> sorted_wrt (\<lambda>r s. key_le ascending (col r) (col s)) res)"



text \<open>
  Lines 118 and 119: \<^verbatim>\<open>df[df["Town"] == town_selected]\<close>, then \<^verbatim>\<open>sort_values("Year")\<close>.
  \<^verbatim>\<open>Year\<close> is an integer column: no cell of it is missing.
\<close>

definition filterByTown :: "frame \<Rightarrow> string \<Rightarrow> frame \<Rightarrow> bool" where
  "filterByTown df town_selected res =
     sort_values (\<lambda>r. Some (Year r)) True (filter (\<lambda>r. Town r = town_selected) df) res"

text \<open>
  One sorter the contract admits, and the one \<^verbatim>\<open>kind='stable'\<close> would select: insertion
  from the right, each row placed before the first row that does not precede it. It
  shows that \<open>sort_values\<close> always has a result, and it is the reference for what a
  stable tie-break would return.
\<close>

fun place :: "('r \<Rightarrow> 'r \<Rightarrow> bool) \<Rightarrow> 'r \<Rightarrow> 'r list \<Rightarrow> 'r list" where
  "place le x [] = [x]"
| "place le x (y # ys) = (if le x y then x # y # ys else y # place le x ys)"

definition stable_sort_values ::
  "('r \<Rightarrow> 'k::linorder option) \<Rightarrow> bool \<Rightarrow> 'r list \<Rightarrow> 'r list" where
  "stable_sort_values col ascending view =
     foldr (place (\<lambda>r s. key_le ascending (col r) (col s))) view []"

section \<open>Regression\<close>

text \<open>
  Line 155: \<^verbatim>\<open>dropna(subset=["Total Assisted Units", "Percent Affordable"])\<close> drops
  every row with a missing cell in either column.
\<close>

definition dropna :: "frame \<Rightarrow> frame" where
  "dropna df =
     filter (\<lambda>r. Total_Assisted_Units r \<noteq> None \<and> Percent_Affordable r \<noteq> None) df"

text \<open>
  \<^verbatim>\<open>np.polyfit(x, y, 1)\<close> is numpy's least-squares fit of a line, returned as (slope,
  intercept), and it can raise instead of returning. A fitter is therefore a function to
  an optional pair, \<open>None\<close> standing for no line returned.

  In exact arithmetic the least-squares line is the solution of the normal equations,
  written out in \<open>polyfit1\<close>. When all of \<open>x\<close> is one value the equations are singular
  (the denominator \<open>d\<close> is 0) and do not determine a line; what numpy answers there (a
  warning with a line of its own choice, or an exception) is not described, and
  \<open>polyfit1\<close> is \<open>None\<close>.
\<close>

type_synonym fitter = "rat list \<Rightarrow> rat list \<Rightarrow> (rat \<times> rat) option"

definition polyfit1 :: fitter where
  "polyfit1 x y =
     (let n = of_nat (length x);
          sx = sum_list x;
          sy = sum_list y;
          sxx = sum_list (map (\<lambda>u. u * u) x);
          sxy = sum_list (map2 (\<lambda>u v. u * v) x y);
          d = n * sxx - sx * sx;
          b = (n * sxy - sx * sy) / d;
          a = (sy - b * sx) / n
      in if d = 0 then None else Some (b, a))"

text \<open>Lines 201 and 202, and \<^verbatim>\<open>np.mean\<close>.\<close>

definition mean :: "rat list \<Rightarrow> rat" where
  "mean y = sum_list y / of_nat (length y)"

definition ss_res :: "rat \<Rightarrow> rat \<Rightarrow> rat list \<Rightarrow> rat list \<Rightarrow> rat" where
  "ss_res a b x y = sum_list (map2 (\<lambda>v u. (v - (a + b * u))\<^sup>2) y x)"

definition ss_tot :: "rat list \<Rightarrow> rat" where
  "ss_tot y = sum_list (map (\<lambda>v. (v - mean y)\<^sup>2) y)"

text \<open>
  Line 203: \<^verbatim>\<open>r2 = 1 - ss_res / ss_tot if ss_tot != 0 else np.nan\<close>; \<open>None\<close> is \<^verbatim>\<open>np.nan\<close>.
\<close>

definition r2 :: "rat \<Rightarrow> rat \<Rightarrow> rat list \<Rightarrow> rat list \<Rightarrow> rat option" where
  "r2 a b x y = (if ss_tot y \<noteq> 0 then Some (1 - ss_res a b x y / ss_tot y) else None)"

text \<open>
  Lines 150 to 205, without the charts. The section warns (line 158), or writes the
  fitted slope \<open>b\<close>, intercept \<open>a\<close> and \<open>r2\<close>, or stops at line 165 when the fitter
  returns no line. The fitter is a parameter, so that what does not depend on numpy is
  proved for every fitter.
\<close>

datatype reg_outcome = InsufficientData | Fitted rat rat "rat option" | NoFit

definition df_reg :: "frame \<Rightarrow> int \<Rightarrow> frame" where
  "df_reg df reg_year = dropna (filterByYear df reg_year)"

definition regression :: "fitter \<Rightarrow> frame \<Rightarrow> int \<Rightarrow> reg_outcome" where
  "regression polyfit df reg_year =
     (if length (df_reg df reg_year) < 2 then InsufficientData
      else
        let x = present Total_Assisted_Units (df_reg df reg_year);
            y = present Percent_Affordable (df_reg df reg_year)
        in case polyfit x y of
             None \<Rightarrow> NoFit
           | Some (b, a) \<Rightarrow> Fitted b a (r2 a b x y))"

section \<open>Example rows\<close>

definition mk :: "string \<Rightarrow> int \<Rightarrow> rat option \<Rightarrow> rat option \<Rightarrow> rat option \<Rightarrow> obs" where
  "mk t y c u p =
     \<lparr>Town = t, Year = y, Census_Units = c, Total_Assisted_Units = u, Percent_Affordable = p\<rparr>"

definition line3 :: frame where
  "line3 =
     [mk ''Avon'' 2011 (Some 7000) (Some 1) (Some 2),
      mk ''Bethel'' 2011 (Some 7300) (Some 2) (Some 4),
      mk ''Canton'' 2012 (Some 4300) (Some 9) (Some 1),
      mk ''Canton'' 2011 (Some 4300) (Some 3) (Some 6),
      mk ''Derby'' 2011 (Some 5500) None (Some 7)]"


definition one_row :: frame where
  "one_row =
     [mk ''Avon'' 2011 (Some 7000) (Some 1) (Some 5),
      mk ''Bethel'' 2011 (Some 7300) None (Some 5),
      mk ''Canton'' 2011 (Some 4300) (Some 3) None,
      mk ''Avon'' 2012 (Some 7000) (Some 2) (Some 6)]"

definition sample :: frame where
  "sample =
     [mk ''Avon'' 2011 (Some 7000) (Some 1) (Some 2),
      mk ''Bethel'' 2012 (Some 7300) (Some 9) (Some 4),
      mk ''Avon'' 2012 (Some 7000) (Some 2) (Some 4),
      mk ''Canton'' 2011 (Some 4300) None (Some 6)]"





definition towns :: frame where
  "towns =
     [mk ''Avon'' 2013 (Some 7000) (Some 3) (Some 4),
      mk ''Bethel'' 2011 (Some 7300) (Some 9) (Some 4),
      mk ''Avon'' 2011 (Some 7000) (Some 1) (Some 2),
      mk ''Avon'' 2012 (Some 7000) (Some 2) (Some 4)]"

definition census_rows :: frame where
  "census_rows =
     [mk ''Avon'' 2011 (Some 7000) (Some 1) (Some 2),
      mk ''Bethel'' 2011 None (Some 9) (Some 4),
      mk ''Canton'' 2011 (Some 4300) (Some 2) (Some 4),
      mk ''Derby'' 2011 (Some 5500) (Some 2) (Some 4)]"

definition no_census :: frame where
  "no_census = [mk ''Bethel'' 2011 None (Some 9) (Some 4)]"

section \<open>Filtering by year\<close>

lemma length_filter_count: "length (filter (\<lambda>r. f r = y) xs) = count (mset (map f xs)) y"
  by (induction xs) auto

text \<open>
  C5. Filtering the table by a year \<open>Y\<close> keeps only rows of year \<open>Y\<close>, keeps every row
  of the table of year \<open>Y\<close> (each as often as the table has it, in table order), has as
  many rows as the table has for \<open>Y\<close>, and is the empty view when no row has year \<open>Y\<close>.
\<close>

theorem filterByYear_spec:
  "(\<forall>r \<in> set (filterByYear df Y). Year r = Y)
   \<and> (\<forall>r \<in> set df. Year r = Y \<longrightarrow> r \<in> set (filterByYear df Y))
   \<and> (\<forall>r. Year r = Y \<longrightarrow> count (mset (filterByYear df Y)) r = count (mset df) r)
   \<and> length (filterByYear df Y) = rows_per_year df Y
   \<and> (Y \<notin> Year ` set df \<longrightarrow> filterByYear df Y = [])"
proof -
  have "\<And>r. Year r = Y \<Longrightarrow> count (mset (filterByYear df Y)) r = count (mset df) r"
    by (simp add: filterByYear_def)
  moreover have "length (filterByYear df Y) = rows_per_year df Y"
    unfolding filterByYear_def rows_per_year_def by (rule length_filter_count)
  moreover have "Y \<notin> Year ` set df \<Longrightarrow> filterByYear df Y = []"
    by (auto simp: filterByYear_def filter_empty_conv)
  ultimately show ?thesis
    by (auto simp: filterByYear_def)
qed

theorem filterByYear_spec_witness:
  "filterByYear sample 2011 =
     [mk ''Avon'' 2011 (Some 7000) (Some 1) (Some 2), mk ''Canton'' 2011 (Some 4300) None (Some 6)]
   \<and> list_all (\<lambda>r. Year r = 2011) (filterByYear sample 2011)
   \<and> mk ''Canton'' 2011 (Some 4300) None (Some 6) \<in> set sample
   \<and> Year (mk ''Canton'' 2011 (Some 4300) None (Some 6)) = 2011
   \<and> mk ''Canton'' 2011 (Some 4300) None (Some 6) \<in> set (filterByYear sample 2011)
   \<and> length (filterByYear sample 2011) = rows_per_year sample 2011
   \<and> rows_per_year sample 2011 = 2
   \<and> 2010 \<notin> Year ` set sample \<and> filterByYear sample 2010 = []"
proof -
  let ?c = "mk ''Canton'' 2011 (Some 4300) None (Some 6)"
  note at_2011 = filterByYear_spec [of sample 2011]
  note at_2010 = filterByYear_spec [of sample 2010]
  have rows: "filterByYear sample 2011 = [mk ''Avon'' 2011 (Some 7000) (Some 1) (Some 2), ?c]"
    by (simp add: filterByYear_def sample_def mk_def)
  have only: "list_all (\<lambda>r. Year r = 2011) (filterByYear sample 2011)"
    unfolding list_all_iff using at_2011 by (rule conjunct1)
  have mem: "?c \<in> set sample" by (simp add: sample_def)
  have yr: "Year ?c = 2011" by (simp add: mk_def)
  have kept: "?c \<in> set (filterByYear sample 2011)"
    using at_2011 mem yr by blast
  have len: "length (filterByYear sample 2011) = rows_per_year sample 2011"
    using at_2011 by blast
  have two: "rows_per_year sample 2011 = 2"
    using len by (simp add: rows)
  have absent: "2010 \<notin> Year ` set sample" by (simp add: sample_def mk_def)
  have none: "filterByYear sample 2010 = []"
    using at_2010 absent by blast
  show ?thesis
    using rows only mem yr kept len two absent none by blast
qed

text \<open>
  C7. For every year \<open>Y\<close>, the inclusive year range \<open>[Y, Y]\<close> selects the same rows in the
  same order as the single year \<open>Y\<close> (before the census-unit bounds are applied).
\<close>

theorem filterByYearRange_point: "filterByYearRange df Y Y = filterByYear df Y"
  unfolding filterByYearRange_def filterByYear_def
  by (rule filter_cong) auto

section \<open>Bounds on the census units\<close>

lemma set_present: "set (present col view) = {v. \<exists>r \<in> set view. col r = Some v}"
  unfolding present_def List.map_filter_def by (induction view) auto

lemma fold_min_le: "fold min vs (v::rat) \<le> v"
proof (induction vs arbitrary: v)
  case Nil
  then show ?case by simp
next
  case (Cons w vs)
  have "fold min vs (min w v) \<le> min w v" by (rule Cons.IH)
  then show ?case by simp
qed

lemma fold_min_lower: "u \<in> set vs \<Longrightarrow> fold min vs (v::rat) \<le> u"
proof (induction vs arbitrary: v)
  case Nil
  then show ?case by simp
next
  case (Cons w vs)
  show ?case
  proof (cases "u = w")
    case True
    have "fold min vs (min w v) \<le> min w v" by (rule fold_min_le)
    with True show ?thesis by simp
  next
    case False
    with Cons show ?thesis by simp
  qed
qed

lemma fold_max_ge: "v \<le> fold max vs (v::rat)"
proof (induction vs arbitrary: v)
  case Nil
  then show ?case by simp
next
  case (Cons w vs)
  have "max w v \<le> fold max vs (max w v)" by (rule Cons.IH)
  then show ?case by simp
qed

lemma fold_max_upper: "u \<in> set vs \<Longrightarrow> u \<le> fold max vs (v::rat)"
proof (induction vs arbitrary: v)
  case Nil
  then show ?case by simp
next
  case (Cons w vs)
  show ?case
  proof (cases "u = w")
    case True
    have "max w v \<le> fold max vs (max w v)" by (rule fold_max_ge)
    with True show ?thesis by simp
  next
    case False
    with Cons show ?thesis by simp
  qed
qed

lemma col_min_lower:
  assumes "r \<in> set view" and "col r = Some v"
  shows "\<exists>lo. col_min col view = Some lo \<and> lo \<le> v"
proof -
  from assms have mem: "v \<in> set (present col view)"
    by (auto simp: set_present)
  then obtain w ws where p: "present col view = w # ws"
    by (cases "present col view") auto
  with mem have "fold min ws w \<le> v"
    using fold_min_le [of ws w] fold_min_lower [of v ws w] by auto
  with p show ?thesis
    by (simp add: col_min_def)
qed

lemma col_max_upper:
  assumes "r \<in> set view" and "col r = Some v"
  shows "\<exists>hi. col_max col view = Some hi \<and> v \<le> hi"
proof -
  from assms have mem: "v \<in> set (present col view)"
    by (auto simp: set_present)
  then obtain w ws where p: "present col view = w # ws"
    by (cases "present col view") auto
  with mem have "v \<le> fold max ws w"
    using fold_max_ge [of w ws] fold_max_upper [of v ws w] by auto
  with p show ?thesis
    by (simp add: col_max_def)
qed

lemma nan_le_iff: "nan_le p q \<longleftrightarrow> (\<exists>a b. p = Some a \<and> q = Some b \<and> a \<le> b)"
  by (cases p; cases q) auto

text \<open>
  C8, as the code has it. When some row of the view has a number in the column, the
  bounds taken from the view's own minimum and maximum keep exactly the rows that have a
  number, so at least one row; for any bounds, a row of the view whose number lies
  within them is kept, and only such rows are. (A view with no number in the column has
  not-a-number bounds, and the comparison with them keeps no row.)
\<close>

theorem filterByNumericRange_extremes:
  "((\<exists>r \<in> set view. col r \<noteq> None) \<longrightarrow>
      filterByNumericRange col view (col_min col view) (col_max col view)
        = filter (\<lambda>r. col r \<noteq> None) view
      \<and> filterByNumericRange col view (col_min col view) (col_max col view) \<noteq> [])
   \<and> (r \<in> set view \<and> col r = Some v \<and> lo \<le> v \<and> v \<le> hi
        \<longrightarrow> r \<in> set (filterByNumericRange col view (Some lo) (Some hi)))
   \<and> (r \<in> set (filterByNumericRange col view low high)
        \<longrightarrow> r \<in> set view \<and> (\<exists>l v h. low = Some l \<and> col r = Some v \<and> high = Some h \<and> l \<le> v \<and> v \<le> h))"
proof (intro conjI impI)
  assume some: "\<exists>r \<in> set view. col r \<noteq> None"
  have keep: "nan_le (col_min col view) (col r) \<and> nan_le (col r) (col_max col view) \<longleftrightarrow> col r \<noteq> None"
    if "r \<in> set view" for r
  proof (cases "col r")
    case None
    then show ?thesis by (simp add: nan_le_iff)
  next
    case (Some v)
    with that col_min_lower [of r view col v] col_max_upper [of r view col v]
    show ?thesis by (auto simp: nan_le_iff)
  qed
  show eq: "filterByNumericRange col view (col_min col view) (col_max col view)
        = filter (\<lambda>r. col r \<noteq> None) view"
    unfolding filterByNumericRange_def by (rule filter_cong) (simp_all add: keep)
  from some show "filterByNumericRange col view (col_min col view) (col_max col view) \<noteq> []"
    unfolding eq by (simp add: filter_empty_conv)
next
  assume "r \<in> set view \<and> col r = Some v \<and> lo \<le> v \<and> v \<le> hi"
  then show "r \<in> set (filterByNumericRange col view (Some lo) (Some hi))"
    by (simp add: filterByNumericRange_def)
next
  assume h: "r \<in> set (filterByNumericRange col view low high)"
  then show "r \<in> set view"
    by (simp add: filterByNumericRange_def)
  from h show "\<exists>l v h. low = Some l \<and> col r = Some v \<and> high = Some h \<and> l \<le> v \<and> v \<le> h"
    by (auto simp: filterByNumericRange_def nan_le_iff)
qed

lemma census_extremes:
  "col_min Census_Units census_rows = Some 4300" "col_max Census_Units census_rows = Some 7000"
  by (simp_all add: col_min_def col_max_def present_def List.map_filter_def census_rows_def mk_def)

theorem filterByNumericRange_extremes_witness:
  "mk ''Avon'' 2011 (Some 7000) (Some 1) (Some 2) \<in> set census_rows
   \<and> Census_Units (mk ''Avon'' 2011 (Some 7000) (Some 1) (Some 2)) = Some 7000
   \<and> col_min Census_Units census_rows = Some 4300
   \<and> col_max Census_Units census_rows = Some 7000
   \<and> filterByNumericRange Census_Units census_rows (Some 4300) (Some 7000)
       = [mk ''Avon'' 2011 (Some 7000) (Some 1) (Some 2),
          mk ''Canton'' 2011 (Some 4300) (Some 2) (Some 4),
          mk ''Derby'' 2011 (Some 5500) (Some 2) (Some 4)]
   \<and> filterByNumericRange Census_Units census_rows (col_min Census_Units census_rows)
        (col_max Census_Units census_rows) \<noteq> []
   \<and> mk ''Avon'' 2011 (Some 7000) (Some 1) (Some 2)
        \<in> set (filterByNumericRange Census_Units census_rows (Some 5000) (Some 7000))
   \<and> (\<exists>l v h. Some 5000 = Some l
         \<and> Census_Units (mk ''Avon'' 2011 (Some 7000) (Some 1) (Some 2)) = Some v
         \<and> Some 7000 = Some h \<and> l \<le> v \<and> v \<le> h)
   \<and> filterByNumericRange Census_Units census_rows (Some 5000) (Some 7000)
       = [mk ''Avon'' 2011 (Some 7000) (Some 1) (Some 2),
          mk ''Derby'' 2011 (Some 5500) (Some 2) (Some 4)]"
proof -
  let ?avon = "mk ''Avon'' 2011 (Some 7000) (Some 1) (Some 2)"
  note inst = filterByNumericRange_extremes
    [of census_rows Census_Units ?avon 7000 5000 7000 "Some 5000" "Some 7000"]
  have mem: "?avon \<in> set census_rows"
    by (simp add: census_rows_def)
  have cell: "Census_Units ?avon = Some 7000"
    by (simp add: mk_def)
  have some: "\<exists>r \<in> set census_rows. Census_Units r \<noteq> None"
    using mem cell by auto
  have kept: "filter (\<lambda>r. Census_Units r \<noteq> None) census_rows
       = [?avon, mk ''Canton'' 2011 (Some 4300) (Some 2) (Some 4),
          mk ''Derby'' 2011 (Some 5500) (Some 2) (Some 4)]"
    by (simp add: census_rows_def mk_def)
  have "filterByNumericRange Census_Units census_rows (col_min Census_Units census_rows)
        (col_max Census_Units census_rows) = filter (\<lambda>r. Census_Units r \<noteq> None) census_rows"
    using inst some by blast
  then have all: "filterByNumericRange Census_Units census_rows (Some 4300) (Some 7000)
       = [?avon, mk ''Canton'' 2011 (Some 4300) (Some 2) (Some 4),
          mk ''Derby'' 2011 (Some 5500) (Some 2) (Some 4)]"
    by (simp only: census_extremes kept)
  have ne: "filterByNumericRange Census_Units census_rows (col_min Census_Units census_rows)
        (col_max Census_Units census_rows) \<noteq> []"
    using inst some by blast
  have bounds: "(5000::rat) \<le> 7000 \<and> (7000::rat) \<le> 7000"
    by simp
  have inside: "?avon \<in> set (filterByNumericRange Census_Units census_rows (Some 5000) (Some 7000))"
    using inst mem cell bounds by blast
  have part: "filterByNumericRange Census_Units census_rows (Some 5000) (Some 7000)
       = [?avon, mk ''Derby'' 2011 (Some 5500) (Some 2) (Some 4)]"
    by (simp add: filterByNumericRange_def census_rows_def mk_def)
  have within: "\<exists>l v h. Some 5000 = Some l \<and> Census_Units ?avon = Some v
         \<and> Some 7000 = Some h \<and> l \<le> v \<and> v \<le> h"
    using inst inside by blast
  show ?thesis
    using mem cell census_extremes all ne inside within part by blast
qed

text \<open>
  A view that is not empty and has no number in the column: both bounds are
  not-a-number and the filter keeps nothing.
\<close>

theorem filterByNumericRange_counterexample:
  "no_census \<noteq> []
   \<and> col_min Census_Units no_census = None
   \<and> col_max Census_Units no_census = None
   \<and> filterByNumericRange Census_Units no_census (col_min Census_Units no_census)
        (col_max Census_Units no_census) = []"
  by (simp add: no_census_def col_min_def col_max_def present_def List.map_filter_def mk_def
      filterByNumericRange_def)

section \<open>Sorted views\<close>

lemma key_le_total: "key_le asc p q \<or> key_le asc q p"
  by (cases p; cases q) auto

lemma key_le_trans: "key_le asc p q \<Longrightarrow> key_le asc q r \<Longrightarrow> key_le asc p r"
  by (cases p; cases q; cases r) (auto split: if_splits)



lemma key_le_ascending:
  "key_le True (Some a) (Some b) \<longleftrightarrow> a \<le> b"
  by simp

lemma mset_place: "mset (place le x ys) = add_mset x (mset ys)"
  by (induction ys) auto

lemma set_place: "set (place le x ys) = insert x (set ys)"
  by (induction ys) auto

lemma sorted_place:
  assumes total: "\<And>a b. le a b \<or> le b a"
    and trans: "\<And>a b c. le a b \<Longrightarrow> le b c \<Longrightarrow> le a c"
  shows "sorted_wrt le ys \<Longrightarrow> sorted_wrt le (place le x ys)"
proof (induction ys)
  case Nil
  then show ?case by simp
next
  case (Cons y ys)
  show ?case
  proof (cases "le x y")
    case True
    with Cons.prems trans show ?thesis by auto
  next
    case False
    with total have "le y x" by blast
    with False Cons show ?thesis by (auto simp: set_place)
  qed
qed

lemma mset_insertion: "mset (foldr (place le) xs []) = mset xs"
  by (induction xs) (auto simp: mset_place)

lemma sorted_insertion:
  assumes "\<And>a b. le a b \<or> le b a" and "\<And>a b c. le a b \<Longrightarrow> le b c \<Longrightarrow> le a c"
  shows "sorted_wrt le (foldr (place le) xs [])"
proof (induction xs)
  case Nil
  then show ?case by simp
next
  case (Cons x xs)
  have "sorted_wrt le (place le x (foldr (place le) xs []))"
    using assms Cons.IH by (rule sorted_place)
  then show ?case by simp
qed


lemma stable_sort_values_admitted: "sort_values col asc view (stable_sort_values col asc view)"
  unfolding sort_values_def stable_sort_values_def
proof
  show "mset (foldr (place (\<lambda>r s. key_le asc (col r) (col s))) view []) = mset view"
    by (rule mset_insertion)
  show "sorted_wrt (\<lambda>r s. key_le asc (col r) (col s))
          (foldr (place (\<lambda>r s. key_le asc (col r) (col s))) view [])"
  proof (rule sorted_insertion)
    show "\<And>a b. key_le asc (col a) (col b) \<or> key_le asc (col b) (col a)"
      by (rule key_le_total)
    show "\<And>a b c. key_le asc (col a) (col b) \<Longrightarrow> key_le asc (col b) (col c)
        \<Longrightarrow> key_le asc (col a) (col c)"
      by (rule key_le_trans)
  qed
qed

















lemma town_rows_of_towns:
  "filter (\<lambda>r. Town r = ''Avon'') towns =
     [mk ''Avon'' 2013 (Some 7000) (Some 3) (Some 4),
      mk ''Avon'' 2011 (Some 7000) (Some 1) (Some 2),
      mk ''Avon'' 2012 (Some 7000) (Some 2) (Some 4)]"
  by (simp add: towns_def mk_def)

text \<open>
  C6. For every table and town the operation has a result; every result holds exactly
  the rows of that town, each as often as the table does, with years that never
  decrease from one row to the next; and the results depend on the rows of the table
  only, not on their order.
\<close>

theorem filterByTown_spec:
  "(\<exists>res. filterByTown df T res)
   \<and> (filterByTown df T res \<longrightarrow>
        mset res = mset (filter (\<lambda>r. Town r = T) df)
        \<and> set res = {r \<in> set df. Town r = T}
        \<and> sorted (map Year res)
        \<and> (\<forall>i j. i \<le> j \<and> j < length res \<longrightarrow> Year (res ! i) \<le> Year (res ! j)))
   \<and> (mset df' = mset df \<longrightarrow> filterByTown df' T res = filterByTown df T res)"
proof (intro conjI impI)
  show "\<exists>res. filterByTown df T res"
    unfolding filterByTown_def using stable_sort_values_admitted by blast
next
  assume "filterByTown df T res"
  then have ms: "mset res = mset (filter (\<lambda>r. Town r = T) df)"
    and srt: "sorted_wrt (\<lambda>r s. Year r \<le> Year s) res"
    by (simp_all add: filterByTown_def sort_values_def)
  show "mset res = mset (filter (\<lambda>r. Town r = T) df)"
    by (rule ms)
  from ms have "set res = set (filter (\<lambda>r. Town r = T) df)"
    by (rule mset_eq_setD)
  then show "set res = {r \<in> set df. Town r = T}"
    by simp
  from srt show sorted: "sorted (map Year res)"
    by (simp add: sorted_map)
  then show "\<forall>i j. i \<le> j \<and> j < length res \<longrightarrow> Year (res ! i) \<le> Year (res ! j)"
    by (auto simp: sorted_iff_nth_mono)
next
  assume "mset df' = mset df"
  then have "mset (filter (\<lambda>r. Town r = T) df') = mset (filter (\<lambda>r. Town r = T) df)"
    unfolding mset_filter [symmetric] by simp
  then show "filterByTown df' T res = filterByTown df T res"
    by (simp add: filterByTown_def sort_values_def)
qed

theorem filterByTown_spec_witness:
  "filterByTown towns ''Avon''
     [mk ''Avon'' 2011 (Some 7000) (Some 1) (Some 2),
      mk ''Avon'' 2012 (Some 7000) (Some 2) (Some 4),
      mk ''Avon'' 2013 (Some 7000) (Some 3) (Some 4)]
   \<and> map Year
     [mk ''Avon'' 2011 (Some 7000) (Some 1) (Some 2),
      mk ''Avon'' 2012 (Some 7000) (Some 2) (Some 4),
      mk ''Avon'' 2013 (Some 7000) (Some 3) (Some 4)] = [2011, 2012, 2013]
   \<and> sorted (map Year
     [mk ''Avon'' 2011 (Some 7000) (Some 1) (Some 2),
      mk ''Avon'' 2012 (Some 7000) (Some 2) (Some 4),
      mk ''Avon'' 2013 (Some 7000) (Some 3) (Some 4)])
   \<and> Year ([mk ''Avon'' 2011 (Some 7000) (Some 1) (Some 2),
      mk ''Avon'' 2012 (Some 7000) (Some 2) (Some 4),
      mk ''Avon'' 2013 (Some 7000) (Some 3) (Some 4)] ! 0)
       \<le> Year ([mk ''Avon'' 2011 (Some 7000) (Some 1) (Some 2),
      mk ''Avon'' 2012 (Some 7000) (Some 2) (Some 4),
      mk ''Avon'' 2013 (Some 7000) (Some 3) (Some 4)] ! 2)
   \<and> mset (rev towns) = mset towns
   \<and> filterByTown (rev towns) ''Avon''
     [mk ''Avon'' 2011 (Some 7000) (Some 1) (Some 2),
      mk ''Avon'' 2012 (Some 7000) (Some 2) (Some 4),
      mk ''Avon'' 2013 (Some 7000) (Some 3) (Some 4)]"
proof -
  let ?res = "[mk ''Avon'' 2011 (Some 7000) (Some 1) (Some 2),
      mk ''Avon'' 2012 (Some 7000) (Some 2) (Some 4),
      mk ''Avon'' 2013 (Some 7000) (Some 3) (Some 4)]"
  note inst = filterByTown_spec [of towns "''Avon''" ?res "rev towns"]
  have "stable_sort_values (\<lambda>r. Some (Year r)) True (filter (\<lambda>r. Town r = ''Avon'') towns) = ?res"
    unfolding town_rows_of_towns by (simp add: stable_sort_values_def mk_def)
  then have admitted: "filterByTown towns ''Avon'' ?res"
    unfolding filterByTown_def
    using stable_sort_values_admitted [of "\<lambda>r. Some (Year r)" True "filter (\<lambda>r. Town r = ''Avon'') towns"]
    by simp
  have years: "map Year ?res = [2011, 2012, 2013]"
    by (simp add: mk_def)
  have srt: "sorted (map Year ?res)"
    using inst admitted by blast
  have "(0::nat) \<le> 2 \<and> 2 < length ?res"
    by simp
  then have idx: "Year (?res ! 0) \<le> Year (?res ! 2)"
    using inst admitted by blast
  have perm: "mset (rev towns) = mset towns"
    by simp
  have other: "filterByTown (rev towns) ''Avon'' ?res"
    using inst perm admitted by blast
  show ?thesis
    using admitted years srt idx perm other by blast
qed

section \<open>The regression section\<close>

lemma ss_res_nonneg: "0 \<le> ss_res a b x y"
  unfolding ss_res_def by (rule sum_list_nonneg) auto

lemma ss_tot_nonneg: "0 \<le> ss_tot y"
  unfolding ss_tot_def by (rule sum_list_nonneg) auto

lemma ss_tot_zero_iff: "ss_tot y = 0 \<longleftrightarrow> (\<forall>v \<in> set y. v = mean y)"
proof -
  have "ss_tot y = 0 \<longleftrightarrow> (\<forall>q \<in> set (map (\<lambda>v. (v - mean y)\<^sup>2) y). q = 0)"
    unfolding ss_tot_def by (rule sum_list_nonneg_eq_0_iff) auto
  then show ?thesis by auto
qed




lemma ss_tot_varied: "u \<in> set y \<Longrightarrow> v \<in> set y \<Longrightarrow> u \<noteq> v \<Longrightarrow> ss_tot y \<noteq> 0"
  unfolding ss_tot_zero_iff by metis

lemma r2_le_1: "ss_tot y \<noteq> 0 \<Longrightarrow> \<exists>r. r2 a b x y = Some r \<and> r \<le> 1"
proof -
  assume nz: "ss_tot y \<noteq> 0"
  with ss_tot_nonneg [of y] have "0 < ss_tot y" by simp
  with ss_res_nonneg [of a b x y] have "0 \<le> ss_res a b x y / ss_tot y" by simp
  with nz show ?thesis by (simp add: r2_def)
qed

lemma regression_fits:
  assumes "2 \<le> length (df_reg df yr)"
    and "fit (present Total_Assisted_Units (df_reg df yr))
             (present Percent_Affordable (df_reg df yr)) = Some (b, a)"
  shows "regression fit df yr =
           Fitted b a (r2 a b (present Total_Assisted_Units (df_reg df yr))
                              (present Percent_Affordable (df_reg df yr)))"
  using assms by (simp add: regression_def Let_def)

lemma regression_no_fit:
  assumes "2 \<le> length (df_reg df yr)"
    and "fit (present Total_Assisted_Units (df_reg df yr))
             (present Percent_Affordable (df_reg df yr)) = None"
  shows "regression fit df yr = NoFit"
  using assms by (simp add: regression_def Let_def)

lemma regression_warns:
  "regression fit df yr = InsufficientData \<longleftrightarrow> length (df_reg df yr) < 2"
  by (simp add: regression_def Let_def split: option.splits)


lemma df_reg_filter:
  "df_reg df yr =
     filter (\<lambda>r. Year r = yr \<and> Total_Assisted_Units r \<noteq> None \<and> Percent_Affordable r \<noteq> None) df"
  unfolding df_reg_def dropna_def filterByYear_def filter_filter
  by (rule filter_cong) auto

lemma df_reg_line3:
  "df_reg line3 2011 =
     [mk ''Avon'' 2011 (Some 7000) (Some 1) (Some 2),
      mk ''Bethel'' 2011 (Some 7300) (Some 2) (Some 4),
      mk ''Canton'' 2011 (Some 4300) (Some 3) (Some 6)]"
  by (simp add: df_reg_def dropna_def filterByYear_def line3_def mk_def)

lemma columns_line3:
  "present Total_Assisted_Units (df_reg line3 2011) = [1, 2, 3]"
  "present Percent_Affordable (df_reg line3 2011) = [2, 4, 6]"
  by (simp_all add: df_reg_line3 present_def List.map_filter_def mk_def)



lemma df_reg_one_row:
  "df_reg one_row 2011 = [mk ''Avon'' 2011 (Some 7000) (Some 1) (Some 5)]"
  by (simp add: df_reg_def dropna_def filterByYear_def one_row_def mk_def)

lemma polyfit1_line3: "polyfit1 [1, 2, 3] [2, 4, 6] = Some (2, 0)"
  by (simp add: polyfit1_def Let_def)


lemma r2_line3: "r2 0 2 [1, 2, 3] [2, 4, 6] = Some 1"
  by (simp add: r2_def ss_tot_def ss_res_def mean_def power2_eq_square)

text \<open>
  The closed form is the least-squares line: whenever it returns a line, no other
  intercept and slope have a smaller residual sum of squares.
\<close>

lemma ss_res_expand:
  "length x = length y \<Longrightarrow>
   ss_res a' b' x y =
     ss_res a b x y
     + 2 * (a - a') * sum_list (map2 (\<lambda>v u. v - (a + b * u)) y x)
     + 2 * (b - b') * sum_list (map2 (\<lambda>v u. (v - (a + b * u)) * u) y x)
     + sum_list (map (\<lambda>u. ((a - a') + (b - b') * u)\<^sup>2) x)"
  unfolding ss_res_def
  by (induction x y rule: list_induct2) (simp_all add: power2_eq_square algebra_simps)

lemma residual_sum:
  "length x = length y \<Longrightarrow>
   sum_list (map2 (\<lambda>v u. v - (a + b * u)) y x) =
     sum_list y - of_nat (length x) * a - b * sum_list (x::rat list)"
  by (induction x y rule: list_induct2) (simp_all add: algebra_simps)

lemma residual_moment:
  "length x = length y \<Longrightarrow>
   sum_list (map2 (\<lambda>v u. (v - (a + b * u)) * u) y x) =
     sum_list (map2 (\<lambda>u v. u * v) x y) - a * sum_list (x::rat list) - b * sum_list (map (\<lambda>u. u * u) x)"
  by (induction x y rule: list_induct2) (simp_all add: algebra_simps)

lemma polyfit1_normal_equations:
  fixes x y :: "rat list"
  defines "n \<equiv> of_nat (length x)"
  assumes fit: "polyfit1 x y = Some (b, a)"
  shows "sum_list y - n * a - b * sum_list x = 0"
    and "sum_list (map2 (\<lambda>u v. u * v) x y) - a * sum_list x - b * sum_list (map (\<lambda>u. u * u) x) = 0"
proof -
  let ?sx = "sum_list x" and ?sy = "sum_list y"
  let ?sxx = "sum_list (map (\<lambda>u. u * u) x)" and ?sxy = "sum_list (map2 (\<lambda>u v. u * v) x y)"
  let ?d = "n * ?sxx - ?sx * ?sx"
  from fit have d: "?d \<noteq> 0"
    by (auto simp: polyfit1_def Let_def n_def split: if_splits)
  then have n0: "n \<noteq> 0"
    by (auto simp: n_def)
  from fit have b: "b = (n * ?sxy - ?sx * ?sy) / ?d"
    by (auto simp: polyfit1_def Let_def n_def split: if_splits)
  from fit have a: "a = (?sy - b * ?sx) / n"
    unfolding b by (auto simp: polyfit1_def Let_def n_def split: if_splits)
  from a n0 have na: "n * a = ?sy - b * ?sx"
    by simp
  then show "?sy - n * a - b * ?sx = 0"
    by simp
  from b d have bd: "b * ?d = n * ?sxy - ?sx * ?sy"
    by simp
  have "n * (?sxy - a * ?sx - b * ?sxx) = n * ?sxy - (n * a) * ?sx - b * (n * ?sxx)"
    by (simp add: algebra_simps)
  also have "\<dots> = n * ?sxy - (?sy - b * ?sx) * ?sx - b * (n * ?sxx)"
    by (simp only: na)
  also have "\<dots> = (n * ?sxy - ?sx * ?sy) - b * ?d"
    by (simp add: algebra_simps)
  also have "\<dots> = 0"
    by (simp only: bd)
  finally show "?sxy - a * ?sx - b * ?sxx = 0"
    using n0 by simp
qed

lemma polyfit1_least_squares:
  fixes x y :: "rat list"
  assumes len: "length x = length y"
    and fit: "polyfit1 x y = Some (b, a)"
  shows "ss_res a b x y \<le> ss_res a' b' x y"
proof -
  have "0 \<le> sum_list (map (\<lambda>u. ((a - a') + (b - b') * u)\<^sup>2) x)"
    by (rule sum_list_nonneg) auto
  then show ?thesis
    unfolding ss_res_expand [OF len, of a' b' a b] residual_sum [OF len] residual_moment [OF len]
      polyfit1_normal_equations [OF fit]
    by simp
qed

text \<open>
  C1. On the rows (1, 2), (2, 4), (3, 6) of one year, with x the assisted units and y the
  percentage, the regression section fits slope 2 and intercept 0 and reports the
  coefficient of determination 1, each within \<open>10\<^sup>-\<^sup>9\<close> (here exactly, the arithmetic
  being exact).
\<close>

theorem fitLine_linear:
  "present Total_Assisted_Units (df_reg line3 2011) = [1, 2, 3]
   \<and> present Percent_Affordable (df_reg line3 2011) = [2, 4, 6]
   \<and> (\<exists>b a r. regression polyfit1 line3 2011 = Fitted b a (Some r)
        \<and> \<bar>b - 2\<bar> \<le> 1 / 10 ^ 9 \<and> \<bar>a - 0\<bar> \<le> 1 / 10 ^ 9 \<and> \<bar>r - 1\<bar> \<le> 1 / 10 ^ 9)
   \<and> regression polyfit1 line3 2011 = Fitted 2 0 (Some 1)"
proof -
  have len: "2 \<le> length (df_reg line3 2011)"
    by (simp add: df_reg_line3)
  have "polyfit1 (present Total_Assisted_Units (df_reg line3 2011))
          (present Percent_Affordable (df_reg line3 2011)) = Some (2, 0)"
    by (simp only: columns_line3 polyfit1_line3)
  with len have "regression polyfit1 line3 2011 =
      Fitted 2 0 (r2 0 2 (present Total_Assisted_Units (df_reg line3 2011))
                         (present Percent_Affordable (df_reg line3 2011)))"
    by (rule regression_fits)
  then have fit: "regression polyfit1 line3 2011 = Fitted 2 0 (Some 1)"
    by (simp only: columns_line3 r2_line3)
  have "\<bar>(2::rat) - 2\<bar> \<le> 1 / 10 ^ 9 \<and> \<bar>(0::rat) - 0\<bar> \<le> 1 / 10 ^ 9 \<and> \<bar>(1::rat) - 1\<bar> \<le> 1 / 10 ^ 9"
    by simp
  with fit have "\<exists>b a r. regression polyfit1 line3 2011 = Fitted b a (Some r)
        \<and> \<bar>b - 2\<bar> \<le> 1 / 10 ^ 9 \<and> \<bar>a - 0\<bar> \<le> 1 / 10 ^ 9 \<and> \<bar>r - 1\<bar> \<le> 1 / 10 ^ 9"
    by blast
  with fit columns_line3 show ?thesis by blast
qed

text \<open>
  C2. For every table, year and fitter, the regression section warns and fits nothing
  exactly when fewer than 2 rows of that year have a value in both columns; one such
  row is not enough.
\<close>

theorem regression_insufficient:
  "(regression fit df yr = InsufficientData \<longleftrightarrow>
      length (filter (\<lambda>r. Year r = yr \<and> Total_Assisted_Units r \<noteq> None
                          \<and> Percent_Affordable r \<noteq> None) df) < 2)
   \<and> (length (filter (\<lambda>r. Year r = yr \<and> Total_Assisted_Units r \<noteq> None
                          \<and> Percent_Affordable r \<noteq> None) df) = 1
        \<longrightarrow> regression fit df yr = InsufficientData)"
proof -
  have "regression fit df yr = InsufficientData \<longleftrightarrow> length (df_reg df yr) < 2"
    by (rule regression_warns)
  then show ?thesis
    unfolding df_reg_filter by auto
qed

theorem regression_insufficient_witness:
  "length (filter (\<lambda>r. Year r = 2011 \<and> Total_Assisted_Units r \<noteq> None
                          \<and> Percent_Affordable r \<noteq> None) one_row) = 1
   \<and> regression polyfit1 one_row 2011 = InsufficientData
   \<and> length (filter (\<lambda>r. Year r = 2011 \<and> Total_Assisted_Units r \<noteq> None
                          \<and> Percent_Affordable r \<noteq> None) line3) = 3
   \<and> regression polyfit1 line3 2011 \<noteq> InsufficientData"
proof -
  have one: "length (filter (\<lambda>r. Year r = 2011 \<and> Total_Assisted_Units r \<noteq> None
                          \<and> Percent_Affordable r \<noteq> None) one_row) = 1"
    by (simp add: one_row_def mk_def)
  have three: "length (filter (\<lambda>r. Year r = 2011 \<and> Total_Assisted_Units r \<noteq> None
                          \<and> Percent_Affordable r \<noteq> None) line3) = 3"
    by (simp add: line3_def mk_def)
  have skipped: "regression polyfit1 one_row 2011 = InsufficientData"
    using regression_insufficient [of polyfit1 one_row 2011] one by blast
  have fitted: "regression polyfit1 line3 2011 \<noteq> InsufficientData"
    using regression_insufficient [of polyfit1 line3 2011] three by simp
  show ?thesis
    using one three skipped fitted by blast
qed



text \<open>
  C10. When the total sum of squares is not 0, which is the case as soon as two y values
  differ, \<open>r2\<close> is a number and is at most 1 for every slope and intercept, because the
  residual sum of squares is not negative; the section reports such a number for
  whatever line the fitter returned.
\<close>

theorem r2_at_most_one:
  "(2 \<le> length (df_reg df yr) \<and> ss_tot (present Percent_Affordable (df_reg df yr)) \<noteq> 0
      \<and> fit (present Total_Assisted_Units (df_reg df yr))
            (present Percent_Affordable (df_reg df yr)) = Some (b, a)
      \<longrightarrow> (\<exists>r. regression fit df yr = Fitted b a (Some r) \<and> r \<le> 1))
   \<and> (ss_tot y \<noteq> 0 \<longrightarrow> 0 \<le> ss_res a' b' x y \<and> (\<exists>r. r2 a' b' x y = Some r \<and> r \<le> 1))
   \<and> (u \<in> set y \<and> v \<in> set y \<and> u \<noteq> v \<longrightarrow> ss_tot y \<noteq> 0)"
proof (intro conjI impI)
  assume h: "2 \<le> length (df_reg df yr) \<and> ss_tot (present Percent_Affordable (df_reg df yr)) \<noteq> 0
      \<and> fit (present Total_Assisted_Units (df_reg df yr))
            (present Percent_Affordable (df_reg df yr)) = Some (b, a)"
  let ?x = "present Total_Assisted_Units (df_reg df yr)"
  let ?y = "present Percent_Affordable (df_reg df yr)"
  from h obtain r where r: "r2 a b ?x ?y = Some r" "r \<le> 1"
    using r2_le_1 by blast
  from h have "regression fit df yr = Fitted b a (r2 a b ?x ?y)"
    using regression_fits by blast
  with r show "\<exists>r. regression fit df yr = Fitted b a (Some r) \<and> r \<le> 1"
    by simp
next
  show "0 \<le> ss_res a' b' x y"
    by (rule ss_res_nonneg)
next
  assume "ss_tot y \<noteq> 0"
  then show "\<exists>r. r2 a' b' x y = Some r \<and> r \<le> 1"
    by (rule r2_le_1)
next
  assume "u \<in> set y \<and> v \<in> set y \<and> u \<noteq> v"
  then show "ss_tot y \<noteq> 0"
    using ss_tot_varied by blast
qed

theorem r2_at_most_one_witness:
  "2 \<le> length (df_reg line3 2011)
   \<and> present Percent_Affordable (df_reg line3 2011) = [2, 4, 6]
   \<and> ss_tot (present Percent_Affordable (df_reg line3 2011)) = 8
   \<and> polyfit1 (present Total_Assisted_Units (df_reg line3 2011))
        (present Percent_Affordable (df_reg line3 2011)) = Some (2, 0)
   \<and> (\<exists>r. regression polyfit1 line3 2011 = Fitted 2 0 (Some r) \<and> r \<le> 1)
   \<and> ss_tot [2, 4, 6] \<noteq> 0
   \<and> ss_res 0 1 [1, 2, 3] [2, 4, 6] = 14
   \<and> r2 0 1 [1, 2, 3] [2, 4, 6] = Some (- 3 / 4)
   \<and> (\<exists>r. r2 0 1 [1, 2, 3] [2, 4, 6] = Some r \<and> r \<le> 1)"
proof -
  note general = r2_at_most_one [of line3 2011 polyfit1 2 0 "[2, 4, 6]" 0 1 "[1, 2, 3]" 2 4]
  have len: "2 \<le> length (df_reg line3 2011)"
    by (simp add: df_reg_line3)
  have col: "present Percent_Affordable (df_reg line3 2011) = [2, 4, 6]"
    by (rule columns_line3)
  have tot: "ss_tot [2, 4, 6] = 8"
    by (simp add: ss_tot_def mean_def power2_eq_square)
  have res: "ss_res 0 1 [1, 2, 3] [2, 4, 6] = 14"
    by (simp add: ss_res_def power2_eq_square)
  have val: "r2 0 1 [1, 2, 3] [2, 4, 6] = Some (- 3 / 4)"
    by (simp add: r2_def tot res)
  have fit: "polyfit1 (present Total_Assisted_Units (df_reg line3 2011))
        (present Percent_Affordable (df_reg line3 2011)) = Some (2, 0)"
    by (simp only: columns_line3 polyfit1_line3)
  have mem: "(2::rat) \<in> set [2, 4, 6] \<and> (4::rat) \<in> set [2, 4, 6] \<and> (2::rat) \<noteq> 4"
    by simp
  have nz: "ss_tot [2, 4, 6] \<noteq> 0"
    using general mem by blast
  have nz': "ss_tot (present Percent_Affordable (df_reg line3 2011)) \<noteq> 0"
    unfolding col by (rule nz)
  have a: "\<exists>r. regression polyfit1 line3 2011 = Fitted 2 0 (Some r) \<and> r \<le> 1"
    using general len nz' fit by blast
  have b: "\<exists>r. r2 0 1 [1, 2, 3] [2, 4, 6] = Some r \<and> r \<le> 1"
    using general nz by blast
  have tot': "ss_tot (present Percent_Affordable (df_reg line3 2011)) = 8"
    by (simp only: col tot)
  show ?thesis
    using len col tot' fit a nz res val b by blast
qed

end
